theory Spec2Isabelle
  imports
    Complex_Main
    "HOL-Library.AList"
    "HOL-Library.Multiset"
    "HOL-Library.Char_ord"
    "HOL-Library.List_Lexorder"
begin

section \<open>The stage-inference engine of \<^verbatim>\<open>app/assessment.py\<close>\<close>

text \<open>
  A shallow embedding of \<^verbatim>\<open>load_assessment_config\<close>, \<^verbatim>\<open>config_hash\<close>,
  \<^verbatim>\<open>assess_stage\<close>, \<^verbatim>\<open>normalize_signals\<close> and \<^verbatim>\<open>update_user_state\<close>.

  Conventions of the embedding.
  \<^item> Python floats are the reals: every statement about scores, probabilities, coverage and
    the confidence score is a statement of exact arithmetic, and rounding is not modelled.
  \<^item> The configuration dict is a record with the keys the code reads. The keys read with
    \<^verbatim>\<open>cfg.get(key, default)\<close> (\<^verbatim>\<open>answer_scale\<close>, \<^verbatim>\<open>version\<close>) are optional fields; the
    keys read with \<^verbatim>\<open>cfg[key]\<close> are plain fields.
  \<^item> A dict that the code only reads and writes by key (the signal maps) is a map. A dict
    that the code builds and then iterates or serialises (scores, probabilities, weights,
    JSON objects) is an association list in insertion order: \<^verbatim>\<open>d[k] = v\<close> is
    \<^const>\<open>AList.update\<close>, which overwrites in place or appends, as a Python dict does.
  \<^item> A raise of the source is a value \<open>Inl e\<close>; a \<^verbatim>\<open>try ... except Exception\<close> is a case
    distinction on it.
  \<^item> The functions of the Python library that the code calls and whose text is not part of
    the repository (the JSON parser, \<^verbatim>\<open>int\<close> on a string, the formatting of numbers and
    strings by \<^verbatim>\<open>json.dumps\<close>, SHA-256) are the fields of a record \<open>pylib\<close> that every
    function takes; every theorem holds for every such library.
\<close>

subsection \<open>Values and errors\<close>

datatype error =
  KeyError | AssertionError | JSONDecodeError | TypeError | ValueError | OverflowError

datatype pyfloat = Finite real | PosInf | NegInf | NaN

text \<open>The values a signal map can carry when it arrives from outside: JSON values.\<close>

datatype json =
    JNull
  | JBool bool
  | JInt int
  | JFloat pyfloat
  | JStr string
  | JArr "json list"
  | JObj "(string \<times> json) list"

subsection \<open>Doubles\<close>

text \<open>
  A Python float is an IEEE-754 double: an infinity, a NaN, or a number \<open>m * 2\<^sup>e\<close> with
  \<open>\<bar>m\<bar> < 2\<^sup>5\<^sup>3\<close> and \<open>e \<ge> -1074\<close> that is below \<open>2\<^sup>1\<^sup>0\<^sup>2\<^sup>4\<close> in absolute value. The result
  of an operation is the exact result rounded to the nearest double, a tie going to the even
  neighbour; a rounded result of magnitude \<open>2\<^sup>1\<^sup>0\<^sup>2\<^sup>4\<close> or more is an infinity.
  \<open>expo x\<close> is the binary exponent of \<open>x\<close>; the doubles next to \<open>x\<close> are the multiples of
  \<open>2\<close> to the power \<open>max (expo x) (-1022) - 52\<close>.

  The sign of a zero is not modelled: \<open>Finite 0\<close> stands for \<^verbatim>\<open>0.0\<close> and \<^verbatim>\<open>-0.0\<close>, which
  Python compares as equal; the code divides by no zero and computes no text from a float
  that it has computed.
\<close>

definition expo :: "real \<Rightarrow> int" where
  "expo x = \<lfloor>log 2 \<bar>x\<bar>\<rfloor>"

definition round_half_even :: "real \<Rightarrow> int" where
  "round_half_even x =
     (let f = \<lfloor>x\<rfloor>; d = x - of_int f
      in if d < 1 / 2 then f else if d > 1 / 2 then f + 1 else if even f then f else f + 1)"

definition huge :: real where
  "huge = 2 ^ 1024"

definition round_double :: "real \<Rightarrow> pyfloat" where
  "round_double x =
     (if x = 0 then Finite 0
      else let e = max (expo x) (- 1022);
               u = 2 powi (e - 52);
               r = of_int (round_half_even (x / u)) * u
           in if r \<ge> huge then PosInf
              else if r \<le> - huge then NegInf
              else Finite r)"

text \<open>The infinity of the sign of \<open>s\<close>; the result of \<^verbatim>\<open>inf * 0\<close> is a NaN.\<close>

definition signed_inf :: "real \<Rightarrow> pyfloat" where
  "signed_inf s = (if s > 0 then PosInf else if s < 0 then NegInf else NaN)"

text \<open>\<^verbatim>\<open>x + y\<close>, \<^verbatim>\<open>x * y\<close> and \<^verbatim>\<open>x / y\<close> on floats. Python raises on a float division by
  zero; the only division of the code is numpy's, which does not.\<close>

fun fadd :: "pyfloat \<Rightarrow> pyfloat \<Rightarrow> pyfloat" where
  "fadd (Finite x) (Finite y) = round_double (x + y)"
| "fadd (Finite x) y = y"
| "fadd x (Finite y) = x"
| "fadd PosInf PosInf = PosInf"
| "fadd NegInf NegInf = NegInf"
| "fadd x y = NaN"

fun fmul :: "pyfloat \<Rightarrow> pyfloat \<Rightarrow> pyfloat" where
  "fmul (Finite x) (Finite y) = round_double (x * y)"
| "fmul NaN y = NaN"
| "fmul x NaN = NaN"
| "fmul (Finite x) PosInf = signed_inf x"
| "fmul (Finite x) NegInf = signed_inf (- x)"
| "fmul PosInf (Finite y) = signed_inf y"
| "fmul NegInf (Finite y) = signed_inf (- y)"
| "fmul PosInf PosInf = PosInf"
| "fmul NegInf NegInf = PosInf"
| "fmul x y = NegInf"





text \<open>\<^verbatim>\<open>float(i)\<close> of an integer: the nearest double, and \<^verbatim>\<open>OverflowError\<close> where that is
  no finite number. \<^verbatim>\<open>a / b\<close> of two integers, \<open>b\<close> not 0, is the nearest double to the
  quotient.\<close>

definition float_of_int :: "int \<Rightarrow> error + pyfloat" where
  "float_of_int i =
     (case round_double (of_int i) of Finite r \<Rightarrow> Inr (Finite r) | _ \<Rightarrow> Inl OverflowError)"


subsection \<open>The configuration\<close>

text \<open>The weights are of a type \<open>'w\<close>: real numbers in the model of exact arithmetic,
  doubles in the model of the arithmetic of the machine.\<close>

record 'w question =
  qid :: string
  qtext :: string
  weights :: "(string \<times> 'w) list"

record 'w config =
  version :: "string option"
  stages :: "string list"
  answer_scale :: "int list option"
  questions :: "'w question list"

text \<open>The definition document before loading: any of the keys may be absent.\<close>

record raw_question =
  raw_id :: "string option"
  raw_text :: "string option"
  raw_weights :: "(string \<times> real) list option"

record raw_config =
  raw_version :: "string option"
  raw_stages :: "string list option"
  raw_answer_scale :: "int list option"
  raw_questions :: "raw_question list option"

record pylib =
  json_loads :: "string \<Rightarrow> raw_config option"
  int_of_str :: "string \<Rightarrow> int option"
  float_of_str :: "string \<Rightarrow> pyfloat option"
  int_repr :: "int \<Rightarrow> string"
  float_repr :: "pyfloat \<Rightarrow> string"
  json_string :: "string \<Rightarrow> string"
  sha256_hexdigest :: "string \<Rightarrow> string"
  np_sum :: "pyfloat list \<Rightarrow> pyfloat"

subsection \<open>Dict operations\<close>

text \<open>\<^verbatim>\<open>d.get(k, default)\<close>, \<^verbatim>\<open>d[k]\<close> (which raises \<^verbatim>\<open>KeyError\<close>) and the dict
  comprehension \<^verbatim>\<open>{k: f(k) for k in keys}\<close>.\<close>

definition dict_get :: "('k \<times> 'v) list \<Rightarrow> 'k \<Rightarrow> 'v \<Rightarrow> 'v" where
  "dict_get d k dflt = (case map_of d k of None \<Rightarrow> dflt | Some v \<Rightarrow> v)"

definition dict_item :: "('k \<times> 'v) list \<Rightarrow> 'k \<Rightarrow> error + 'v" where
  "dict_item d k = (case map_of d k of None \<Rightarrow> Inl KeyError | Some v \<Rightarrow> Inr v)"

definition dict_of_items :: "('k \<times> 'v) list \<Rightarrow> ('k \<times> 'v) list" where
  "dict_of_items kvs = fold (\<lambda>(k, v) d. AList.update k v d) kvs []"

text \<open>\<^verbatim>\<open>signals.get(qid, None)\<close>: an absent key and a key bound to \<^verbatim>\<open>None\<close> both give
  \<^verbatim>\<open>None\<close>.\<close>

definition signal_get :: "(string \<rightharpoonup> int option) \<Rightarrow> string \<Rightarrow> int option" where
  "signal_get sigs k = (case sigs k of None \<Rightarrow> None | Some v \<Rightarrow> v)"

subsection \<open>\<^verbatim>\<open>load_assessment_config\<close>\<close>






subsection \<open>\<^verbatim>\<open>assess_stage\<close>\<close>

text \<open>The inner loop: \<^verbatim>\<open>for s in stages: scores[s] += q["weights"].get(s, 0.0) * float(v)\<close>.\<close>

fun add_weighted :: "real question \<Rightarrow> int \<Rightarrow> string list \<Rightarrow> (string \<times> real) list
    \<Rightarrow> error + (string \<times> real) list" where
  "add_weighted q v [] scores = Inr scores"
| "add_weighted q v (s # ss) scores =
     (case dict_item scores s of
        Inl e \<Rightarrow> Inl e
      | Inr x \<Rightarrow>
          add_weighted q v ss
            (AList.update s (x + dict_get (weights q) s 0 * real_of_int v) scores))"

text \<open>The outer loop over \<^verbatim>\<open>cfg["questions"]\<close>, skipping the questions without a signal.\<close>

fun accumulate :: "real question list \<Rightarrow> (string \<rightharpoonup> int option) \<Rightarrow> string list
    \<Rightarrow> (string \<times> real) list \<Rightarrow> error + (string \<times> real) list" where
  "accumulate [] sigs sts scores = Inr scores"
| "accumulate (q # qs) sigs sts scores =
     (case signal_get sigs (qid q) of
        None \<Rightarrow> accumulate qs sigs sts scores
      | Some v \<Rightarrow>
          (case add_weighted q v sts scores of
             Inl e \<Rightarrow> Inl e
           | Inr scores' \<Rightarrow> accumulate qs sigs sts scores'))"

text \<open>\<^verbatim>\<open>[max(scores[s], 0.0) for s in stages]\<close>\<close>

fun clamped :: "(string \<times> real) list \<Rightarrow> string list \<Rightarrow> error + real list" where
  "clamped scores [] = Inr []"
| "clamped scores (s # ss) =
     (case dict_item scores s of
        Inl e \<Rightarrow> Inl e
      | Inr x \<Rightarrow>
          (case clamped scores ss of
             Inl e \<Rightarrow> Inl e
           | Inr xs \<Rightarrow> Inr (max x 0 # xs)))"

text \<open>\<^verbatim>\<open>if vec.sum() > 0: vec = vec / vec.sum()\<close>\<close>

definition normalise :: "real list \<Rightarrow> real list" where
  "normalise vec = (if sum_list vec > 0 then map (\<lambda>x. x / sum_list vec) vec else vec)"

text \<open>\<^verbatim>\<open>sum(1 for q in cfg["questions"] if signals.get(q["id"], None) is not None)
  / max(len(cfg["questions"]), 1)\<close>\<close>

definition coverage_of :: "real config \<Rightarrow> (string \<rightharpoonup> int option) \<Rightarrow> real" where
  "coverage_of cfg sigs =
     real (length (filter (\<lambda>q. signal_get sigs (qid q) \<noteq> None) (questions cfg)))
       / real (max (length (questions cfg)) 1)"

text \<open>\<^verbatim>\<open>max(probs.values()) if probs else 0.0\<close>\<close>

definition dominance_of :: "(string \<times> real) list \<Rightarrow> real" where
  "dominance_of probs = (case map snd probs of [] \<Rightarrow> 0 | x # xs \<Rightarrow> fold max xs x)"

definition conf_label :: "real \<Rightarrow> string" where
  "conf_label conf_score =
     (if conf_score \<ge> 75 / 100 then ''high''
      else if conf_score \<ge> 45 / 100 then ''medium''
      else ''low'')"

definition assess_stage :: "real config \<Rightarrow> (string \<rightharpoonup> int option)
    \<Rightarrow> error + ((string \<times> real) list \<times> string \<times> (string \<times> real) list \<times> real)" where
  "assess_stage cfg sigs =
     (case accumulate (questions cfg) sigs (stages cfg)
             (dict_of_items (map (\<lambda>s. (s, 0)) (stages cfg))) of
        Inl e \<Rightarrow> Inl e
      | Inr scores \<Rightarrow>
          (case clamped scores (stages cfg) of
             Inl e \<Rightarrow> Inl e
           | Inr vec \<Rightarrow>
               (let probs = dict_of_items (zip (stages cfg) (normalise vec));
                    coverage = coverage_of cfg sigs;
                    dominance = dominance_of probs;
                    conf_score = 6 / 10 * dominance + 4 / 10 * coverage
                in Inr (probs, conf_label conf_score, scores, coverage))))"

subsection \<open>\<^verbatim>\<open>assess_stage\<close> on doubles\<close>










subsection \<open>\<^verbatim>\<open>config_hash\<close>\<close>

text \<open>\<^verbatim>\<open>sep.join(parts)\<close>\<close>

fun join :: "string \<Rightarrow> string list \<Rightarrow> string" where
  "join sep [] = []"
| "join sep [x] = x"
| "join sep (x # y # ys) = x @ sep @ join sep (y # ys)"

text \<open>
  \<^verbatim>\<open>json.dumps(value, sort_keys=True)\<close> with the default separators: the items of every
  object, at every depth, are written in the order of their keys. The text of a number and
  of a string is the library's.
\<close>

function json_dumps :: "pylib \<Rightarrow> json \<Rightarrow> string" where
  "json_dumps L JNull = ''null''"
| "json_dumps L (JBool b) = (if b then ''true'' else ''false'')"
| "json_dumps L (JInt i) = int_repr L i"
| "json_dumps L (JFloat x) = float_repr L x"
| "json_dumps L (JStr s) = json_string L s"
| "json_dumps L (JArr xs) = ''['' @ join '', '' (map (json_dumps L) xs) @ '']''"
| "json_dumps L (JObj kvs) =
     ''{'' @ join '', ''
        (map (\<lambda>kv. json_string L (fst kv) @ '': '' @ json_dumps L (snd kv)) (sort_key fst kvs))
      @ ''}''"
  by pat_completeness auto
termination
proof (relation "measure (\<lambda>(L, j). size j)")
  show "wf (measure (\<lambda>(L, j). size j))" by simp
next
  fix L :: pylib and xs :: "json list" and x
  assume "x \<in> set xs"
  then have "size x < Suc (size_list size xs)"
    by (induction xs) auto
  then show "((L, x), (L, JArr xs)) \<in> measure (\<lambda>(L, j). size j)" by simp
next
  fix L :: pylib and kvs :: "(string \<times> json) list" and kv
  assume "kv \<in> set (sort_key fst kvs)"
  then have "kv \<in> set kvs" by simp
  then have "size (snd kv) < Suc (size_list (\<lambda>x. Suc (size (snd x))) kvs)"
    by (induction kvs) auto
  moreover have "size_prod (\<lambda>x. 0) size = (\<lambda>x :: string \<times> json. Suc (size (snd x)))"
    by (auto simp: fun_eq_iff)
  ultimately show "((L, snd kv), (L, JObj kvs)) \<in> measure (\<lambda>(L, j). size j)" by simp
qed

text \<open>The configuration as the dict that \<^verbatim>\<open>json.dumps\<close> walks. A key read with
  \<^verbatim>\<open>cfg.get\<close> is in the dict only when the field is set.\<close>

definition question_json :: "real question \<Rightarrow> json" where
  "question_json q =
     JObj [(''id'', JStr (qid q)), (''text'', JStr (qtext q)),
           (''weights'', JObj (map (\<lambda>(s, w). (s, JFloat (Finite w))) (weights q)))]"

definition config_json :: "real config \<Rightarrow> json" where
  "config_json cfg =
     JObj ((case version cfg of None \<Rightarrow> [] | Some v \<Rightarrow> [(''version'', JStr v)])
           @ [(''stages'', JArr (map JStr (stages cfg)))]
           @ (case answer_scale cfg of None \<Rightarrow> [] | Some xs \<Rightarrow> [(''answer_scale'', JArr (map JInt xs))])
           @ [(''questions'', JArr (map question_json (questions cfg)))])"



text \<open>\<^verbatim>\<open>hashlib.sha256(blob).hexdigest()[:12]\<close>\<close>

definition config_hash :: "pylib \<Rightarrow> json \<Rightarrow> string" where
  "config_hash L cfg = take 12 (sha256_hexdigest L (json_dumps L cfg))"

subsection \<open>\<^verbatim>\<open>normalize_signals\<close>\<close>

text \<open>
  \<^verbatim>\<open>int(v)\<close>: an integer is itself, a boolean is 0 or 1, a finite float is cut towards
  zero, a string is parsed by the library; everything else raises.
\<close>

definition float_to_int :: "real \<Rightarrow> int" where
  "float_to_int r = (if r \<ge> 0 then \<lfloor>r\<rfloor> else \<lceil>r\<rceil>)"

fun py_int :: "pylib \<Rightarrow> json \<Rightarrow> error + int" where
  "py_int L JNull = Inl TypeError"
| "py_int L (JBool b) = Inr (if b then 1 else 0)"
| "py_int L (JInt i) = Inr i"
| "py_int L (JFloat (Finite r)) = Inr (float_to_int r)"
| "py_int L (JFloat PosInf) = Inl OverflowError"
| "py_int L (JFloat NegInf) = Inl OverflowError"
| "py_int L (JFloat NaN) = Inl ValueError"
| "py_int L (JStr s) = (case int_of_str L s of None \<Rightarrow> Inl ValueError | Some i \<Rightarrow> Inr i)"
| "py_int L (JArr xs) = Inl TypeError"
| "py_int L (JObj kvs) = Inl TypeError"

text \<open>\<^verbatim>\<open>set(cfg.get("answer_scale", [-2,-1,0,1,2]))\<close>\<close>

definition allowed_values :: "'w config \<Rightarrow> int set" where
  "allowed_values cfg = set (case answer_scale cfg of None \<Rightarrow> [-2, -1, 0, 1, 2] | Some xs \<Rightarrow> xs)"

text \<open>\<^verbatim>\<open>v = incoming.get(qid, None)\<close> followed by \<^verbatim>\<open>if v is None\<close>: the result is
  \<open>None\<close> for an absent key and for a key bound to \<^verbatim>\<open>None\<close>.\<close>

definition incoming_get :: "(string \<rightharpoonup> json) \<Rightarrow> string \<Rightarrow> json option" where
  "incoming_get incoming k =
     (case incoming k of None \<Rightarrow> None | Some JNull \<Rightarrow> None | Some v \<Rightarrow> Some v)"

fun normalize_loop :: "pylib \<Rightarrow> int set \<Rightarrow> 'w question list \<Rightarrow> (string \<rightharpoonup> json)
    \<Rightarrow> (string \<rightharpoonup> int option) \<Rightarrow> (string \<rightharpoonup> int option)" where
  "normalize_loop L allowed [] incoming out = out"
| "normalize_loop L allowed (q # qs) incoming out =
     (case incoming_get incoming (qid q) of
        None \<Rightarrow> normalize_loop L allowed qs incoming (out(qid q \<mapsto> None))
      | Some v \<Rightarrow>
          (case py_int L v of
             Inl e \<Rightarrow> normalize_loop L allowed qs incoming (out(qid q \<mapsto> None))
           | Inr iv \<Rightarrow>
               normalize_loop L allowed qs incoming
                 (out(qid q \<mapsto> (if iv \<in> allowed then Some iv else None)))))"

definition normalize_signals :: "pylib \<Rightarrow> 'w config \<Rightarrow> (string \<rightharpoonup> json) \<Rightarrow> (string \<rightharpoonup> int option)" where
  "normalize_signals L cfg incoming =
     normalize_loop L (allowed_values cfg) (questions cfg) incoming Map.empty"

subsection \<open>\<^verbatim>\<open>update_user_state\<close>\<close>

text \<open>The floats of a snapshot are of a type \<open>'w\<close>, as the weights are.\<close>

record 'w snapshot =
  timestamp :: string
  config_version :: string
  snapshot_config_hash :: string
  coverage :: 'w
  stage_probs :: "(string \<times> 'w) list"
  stage_scores :: "(string \<times> 'w) list"

record 'w user_state =
  signals :: "string \<rightharpoonup> int option"
  history :: "'w snapshot list"

text \<open>The loop that writes the accepted values into \<^verbatim>\<open>user_state["signals"]\<close>.\<close>

fun merge_loop :: "pylib \<Rightarrow> int set \<Rightarrow> 'w question list \<Rightarrow> (string \<rightharpoonup> json)
    \<Rightarrow> (string \<rightharpoonup> int option) \<Rightarrow> (string \<rightharpoonup> int option)" where
  "merge_loop L allowed [] incoming sigs = sigs"
| "merge_loop L allowed (q # qs) incoming sigs =
     (case incoming_get incoming (qid q) of
        None \<Rightarrow> merge_loop L allowed qs incoming sigs
      | Some v \<Rightarrow>
          (case py_int L v of
             Inl e \<Rightarrow> merge_loop L allowed qs incoming sigs
           | Inr iv \<Rightarrow>
               (if iv \<in> allowed
                then merge_loop L allowed qs incoming (sigs(qid q \<mapsto> Some iv))
                else merge_loop L allowed qs incoming sigs)))"

text \<open>
  \<open>now\<close> is the text of \<^verbatim>\<open>datetime.utcnow().isoformat()\<close> at the call. An absent state is
  \<open>None\<close>; \<^verbatim>\<open>user_state or {...}\<close> replaces it by the empty state.
\<close>

definition state_or_empty :: "'w user_state option \<Rightarrow> 'w user_state" where
  "state_or_empty user_state =
     (case user_state of
        None \<Rightarrow> \<lparr>signals = Map.empty, history = []\<rparr>
      | Some st \<Rightarrow> st)"

definition update_user_state :: "pylib \<Rightarrow> string \<Rightarrow> real config \<Rightarrow> real user_state option
    \<Rightarrow> (string \<rightharpoonup> json) \<Rightarrow> error + real user_state" where
  "update_user_state L now cfg user_state incoming =
     (let st = state_or_empty user_state;
          sigs = merge_loop L (allowed_values cfg) (questions cfg) incoming (signals st)
      in case assess_stage cfg sigs of
           Inl e \<Rightarrow> Inl e
         | Inr (probs, conf, scores, cov) \<Rightarrow>
             Inr \<lparr>signals = sigs,
                  history = history st @
                    [\<lparr>timestamp = now,
                      config_version = (case version cfg of None \<Rightarrow> ''unknown'' | Some v \<Rightarrow> v),
                      snapshot_config_hash = config_hash L (config_json cfg),
                      coverage = cov,
                      stage_probs = probs,
                      stage_scores = scores\<rparr>]\<rparr>)"



section \<open>The specification's notions\<close>







text \<open>The number of declared questions with a signal that is not null.\<close>

definition answered :: "'w config \<Rightarrow> (string \<rightharpoonup> int option) \<Rightarrow> nat" where
  "answered cfg sigs = length (filter (\<lambda>q. signal_get sigs (qid q) \<noteq> None) (questions cfg))"



text \<open>A value converts to the integer \<open>i\<close> without loss: it denotes the number \<open>i\<close>.\<close>

fun converts_losslessly :: "pylib \<Rightarrow> json \<Rightarrow> int \<Rightarrow> bool" where
  "converts_losslessly L (JInt j) i \<longleftrightarrow> j = i"
| "converts_losslessly L (JBool b) i \<longleftrightarrow> i = (if b then 1 else 0)"
| "converts_losslessly L (JFloat (Finite r)) i \<longleftrightarrow> r = real_of_int i"
| "converts_losslessly L (JStr s) i \<longleftrightarrow> int_of_str L s = Some i"
| "converts_losslessly L v i \<longleftrightarrow> False"

text \<open>The entry of a question in the result of \<^verbatim>\<open>normalize_signals\<close>, value by value.\<close>

definition normalized_value :: "pylib \<Rightarrow> 'w config \<Rightarrow> json option \<Rightarrow> int option" where
  "normalized_value L cfg v =
     (case v of
        None \<Rightarrow> None
      | Some JNull \<Rightarrow> None
      | Some x \<Rightarrow>
          (case py_int L x of
             Inl e \<Rightarrow> None
           | Inr i \<Rightarrow> if i \<in> allowed_values cfg then Some i else None))"


text \<open>Every value stored in a signal map of a user state is an integer of the answer scale.\<close>

definition signals_in_scale :: "'w config \<Rightarrow> (string \<rightharpoonup> int option) \<Rightarrow> bool" where
  "signals_in_scale cfg sigs \<longleftrightarrow>
     (\<forall>k v. sigs k = Some v \<longrightarrow> (\<exists>i. v = Some i \<and> i \<in> allowed_values cfg))"

text \<open>A normalized signal map: its values that are not null sit under declared question-ids
  and are in the answer scale.\<close>

definition normalized :: "'w config \<Rightarrow> (string \<rightharpoonup> int option) \<Rightarrow> bool" where
  "normalized cfg n \<longleftrightarrow>
     (\<forall>k i. n k = Some (Some i) \<longrightarrow> k \<in> qid ` set (questions cfg) \<and> i \<in> allowed_values cfg)"





section \<open>Example inputs\<close>

text \<open>A library whose functions are trivial, but for \<^verbatim>\<open>vec.sum()\<close>, which adds the entries
  from left to right.\<close>

definition lib0 :: pylib where
  "lib0 = \<lparr>json_loads = (\<lambda>s. None), int_of_str = (\<lambda>s. None), float_of_str = (\<lambda>s. None),
           int_repr = (\<lambda>i. []), float_repr = (\<lambda>x. []), json_string = (\<lambda>s. s),
           sha256_hexdigest = (\<lambda>s. s), np_sum = foldl fadd (Finite 0)\<rparr>"

text \<open>Two stages, three questions, the default scale.\<close>

definition cfg2 :: "real config" where
  "cfg2 = \<lparr>version = Some ''v1'', stages = [''FS'', ''SA''], answer_scale = None,
           questions =
             [\<lparr>qid = ''Q1'', qtext = ''one'', weights = [(''FS'', 1), (''SA'', 0)]\<rparr>,
              \<lparr>qid = ''Q2'', qtext = ''two'', weights = [(''FS'', 0), (''SA'', 1)]\<rparr>,
              \<lparr>qid = ''Q3'', qtext = ''three'', weights = [(''FS'', 1), (''SA'', 1)]\<rparr>]\<rparr>"


text \<open>Signal maps: \<^verbatim>\<open>Q1\<close> answered 2, \<^verbatim>\<open>Q2\<close> answered -1 and \<^verbatim>\<open>Q3\<close> null; \<^verbatim>\<open>Q1\<close> alone
  answered 1.\<close>

definition signals2 :: "string \<rightharpoonup> int option" where
  "signals2 = [''Q1'' \<mapsto> Some 2, ''Q2'' \<mapsto> Some (- 1), ''Q3'' \<mapsto> None]"





text \<open>Incoming values as a model may send them: a float, a string, a value out of scale,
  an undeclared key.\<close>

definition incoming_raw :: "string \<rightharpoonup> json" where
  "incoming_raw = [''Q1'' \<mapsto> JFloat (Finite (3 / 2)), ''Q2'' \<mapsto> JInt 7, ''Q3'' \<mapsto> JInt 2,
                   ''Q9'' \<mapsto> JInt 1]"

definition incoming_float :: "string \<rightharpoonup> json" where
  "incoming_float = [''Q1'' \<mapsto> JFloat (Finite (3 / 2))]"

text \<open>A stored state with one signal and no history.\<close>

definition state1 :: "real user_state" where
  "state1 = \<lparr>signals = [''Q2'' \<mapsto> Some (- 2)], history = []\<rparr>"













section \<open>Properties\<close>

subsection \<open>Dicts\<close>


lemma fold_update_keys_distinct:
  "distinct (map fst d) \<Longrightarrow> distinct (map fst (fold (\<lambda>(k, v) d. AList.update k v d) kvs d))"
  by (induction kvs arbitrary: d) (auto simp: distinct_update)



lemma dict_of_items_distinct_keys: "distinct (map fst (dict_of_items kvs))"
  unfolding dict_of_items_def by (rule fold_update_keys_distinct) simp



lemma fold_update_keys_set:
  "fst ` set (fold (\<lambda>(k, v) d. AList.update k v d) kvs d) = fst ` set d \<union> fst ` set kvs"
proof (induction kvs arbitrary: d)
  case Nil
  then show ?case by simp
next
  case (Cons kv kvs)
  obtain k v where kv: "kv = (k, v)" by (cases kv)
  show ?case using Cons.IH[of "AList.update k v d"] dom_update[of k v d] kv by auto
qed

lemma dict_of_items_keys: "fst ` set (dict_of_items kvs) = fst ` set kvs"
  unfolding dict_of_items_def by (simp add: fold_update_keys_set)



subsection \<open>\<^verbatim>\<open>assess_stage\<close> returns\<close>

lemma update_present_keys: "k \<in> fst ` set d \<Longrightarrow> map fst (AList.update k v d) = map fst d"
  by (simp add: update_keys)

lemma dict_item_present: "k \<in> fst ` set d \<Longrightarrow> \<exists>x. dict_item d k = Inr x"
  by (cases "map_of d k") (auto simp: dict_item_def map_of_eq_None_iff)

lemma add_weighted_total:
  "set ss \<subseteq> fst ` set scores \<Longrightarrow>
   \<exists>scores'. add_weighted q v ss scores = Inr scores' \<and> map fst scores' = map fst scores"
proof (induction ss arbitrary: scores)
  case Nil
  then show ?case by simp
next
  case (Cons s ss)
  from Cons.prems have s: "s \<in> fst ` set scores" by simp
  from dict_item_present[OF s] obtain x where x: "dict_item scores s = Inr x" by blast
  let ?sc = "AList.update s (x + dict_get (weights q) s 0 * real_of_int v) scores"
  have keys: "map fst ?sc = map fst scores" using s by (rule update_present_keys)
  then have "set (map fst ?sc) = set (map fst scores)" by simp
  then have "fst ` set ?sc = fst ` set scores" by simp
  with Cons.prems have "set ss \<subseteq> fst ` set ?sc" by simp
  from Cons.IH[OF this] keys x show ?case by simp
qed

lemma accumulate_total:
  "set sts \<subseteq> fst ` set scores \<Longrightarrow>
   \<exists>scores'. accumulate qs sigs sts scores = Inr scores' \<and> map fst scores' = map fst scores"
proof (induction qs arbitrary: scores)
  case Nil
  then show ?case by simp
next
  case (Cons q qs)
  show ?case
  proof (cases "signal_get sigs (qid q)")
    case None
    with Cons.IH[OF Cons.prems] show ?thesis by simp
  next
    case (Some v)
    from add_weighted_total[OF Cons.prems, of q v] obtain sc
      where sc: "add_weighted q v sts scores = Inr sc" "map fst sc = map fst scores" by blast
    then have "set (map fst sc) = set (map fst scores)" by simp
    then have "fst ` set sc = fst ` set scores" by simp
    with Cons.prems have "set sts \<subseteq> fst ` set sc" by simp
    from Cons.IH[OF this] sc Some show ?thesis by simp
  qed
qed

lemma clamped_total:
  "set ss \<subseteq> fst ` set scores \<Longrightarrow>
   \<exists>vec. clamped scores ss = Inr vec \<and> length vec = length ss \<and> (\<forall>x \<in> set vec. 0 \<le> x)"
proof (induction ss)
  case Nil
  then show ?case by simp
next
  case (Cons s ss)
  from Cons.prems have "s \<in> fst ` set scores" by simp
  from dict_item_present[OF this] obtain x where x: "dict_item scores s = Inr x" by blast
  from Cons obtain vec where "clamped scores ss = Inr vec" "length vec = length ss" "\<forall>x \<in> set vec. 0 \<le> x"
    by auto
  with x show ?case by simp
qed

lemma initial_scores_keys: "fst ` set (dict_of_items (map (\<lambda>s. (s, 0::real)) sts)) = set sts"
  by (simp add: dict_of_items_keys image_image)

lemma assess_stage_total:
  "\<exists>probs scores vec.
     accumulate (questions cfg) sigs (stages cfg) (dict_of_items (map (\<lambda>s. (s, 0)) (stages cfg))) = Inr scores \<and>
     clamped scores (stages cfg) = Inr vec \<and>
     length vec = length (stages cfg) \<and> (\<forall>x \<in> set vec. 0 \<le> x) \<and>
     probs = dict_of_items (zip (stages cfg) (normalise vec)) \<and>
     assess_stage cfg sigs =
       Inr (probs,
            conf_label (6 / 10 * dominance_of probs + 4 / 10 * coverage_of cfg sigs),
            scores, coverage_of cfg sigs)"
proof -
  let ?init = "dict_of_items (map (\<lambda>s. (s, 0::real)) (stages cfg))"
  have "set (stages cfg) \<subseteq> fst ` set ?init" by (simp add: initial_scores_keys)
  from accumulate_total[OF this, of "questions cfg" sigs] obtain scores
    where sc: "accumulate (questions cfg) sigs (stages cfg) ?init = Inr scores"
      "map fst scores = map fst ?init" by blast
  then have "set (map fst scores) = set (map fst ?init)" by simp
  then have "fst ` set scores = fst ` set ?init" by simp
  then have "set (stages cfg) \<subseteq> fst ` set scores" by (simp add: initial_scores_keys)
  from clamped_total[OF this] obtain vec
    where vec: "clamped scores (stages cfg) = Inr vec" "length vec = length (stages cfg)"
      "\<forall>x \<in> set vec. 0 \<le> x" by blast
  show ?thesis using sc(1) vec by (simp add: assess_stage_def Let_def)
qed

subsection \<open>The scores over distinct stages\<close>












subsection \<open>Rounding to a double\<close>

lemma expo_bounds:
  assumes "x \<noteq> 0"
  shows "2 powi (expo x) \<le> \<bar>x\<bar>" and "\<bar>x\<bar> < 2 powi (expo x + 1)"
proof -
  have pos: "\<bar>x\<bar> > 0" using assms by simp
  have "\<lfloor>log 2 \<bar>x\<bar>\<rfloor> = expo x" by (simp add: expo_def)
  then have "2 powr (real_of_int (expo x)) \<le> \<bar>x\<bar> \<and> \<bar>x\<bar> < 2 powr (real_of_int (expo x) + 1)"
    using floor_log_eq_powr_iff[OF pos, of 2 "expo x"] by simp
  moreover have "(2::real) powr (real_of_int (expo x)) = 2 powi (expo x)"
    by (simp add: powr_real_of_int')
  moreover have "(2::real) powr (real_of_int (expo x) + 1) = 2 powi (expo x + 1)"
    using powr_real_of_int'[of 2 "expo x + 1"] by simp
  ultimately show "2 powi (expo x) \<le> \<bar>x\<bar>" and "\<bar>x\<bar> < 2 powi (expo x + 1)" by simp_all
qed

lemma expo_eq:
  assumes "x \<noteq> 0" "2 powi e \<le> \<bar>x\<bar>" "\<bar>x\<bar> < 2 powi (e + 1)"
  shows "expo x = e"
proof -
  have pos: "\<bar>x\<bar> > 0" using assms by simp
  have "(2::real) powr (real_of_int e) = 2 powi e"
    by (simp add: powr_real_of_int')
  moreover have "(2::real) powr (real_of_int e + 1) = 2 powi (e + 1)"
    using powr_real_of_int'[of 2 "e + 1"] by simp
  ultimately have "\<lfloor>log 2 \<bar>x\<bar>\<rfloor> = e"
    using floor_log_eq_powr_iff[OF pos, of 2 e] assms by simp
  then show ?thesis by (simp add: expo_def)
qed

lemma round_half_even_int [simp]: "round_half_even (of_int n) = n"
  by (simp add: round_half_even_def)

lemma round_half_even_error: "\<bar>of_int (round_half_even x) - x\<bar> \<le> 1 / 2"
proof -
  have "of_int \<lfloor>x\<rfloor> \<le> x" "x < of_int \<lfloor>x\<rfloor> + 1" by linarith+
  then show ?thesis
    by (auto simp: round_half_even_def Let_def)
qed

lemma round_half_even_le: "x \<le> of_int n \<Longrightarrow> round_half_even x \<le> n"
proof -
  assume a: "x \<le> of_int n"
  have f: "of_int \<lfloor>x\<rfloor> \<le> x" "x < of_int \<lfloor>x\<rfloor> + 1" by linarith+
  show ?thesis
  proof (cases "x = of_int n")
    case True
    then show ?thesis by simp
  next
    case False
    with a have "x < of_int n" by simp
    then have "\<lfloor>x\<rfloor> < n" by linarith
    then show ?thesis by (auto simp: round_half_even_def Let_def)
  qed
qed

lemma round_half_even_ge: "of_int n \<le> x \<Longrightarrow> n \<le> round_half_even x"
proof -
  assume "of_int n \<le> x"
  then have "n \<le> \<lfloor>x\<rfloor>" by linarith
  then show ?thesis by (auto simp: round_half_even_def Let_def)
qed

text \<open>Evaluation at a given binade.\<close>

lemma round_double_at:
  assumes "x \<noteq> 0" "2 powi e \<le> \<bar>x\<bar>" "\<bar>x\<bar> < 2 powi (e + 1)" "- 1022 \<le> e"
  shows "round_double x =
     (let r = of_int (round_half_even (x / 2 powi (e - 52))) * 2 powi (e - 52)
      in if r \<ge> huge then PosInf else if r \<le> - huge then NegInf else Finite r)"
proof -
  have "expo x = e" using assms(1-3) by (rule expo_eq)
  then have "max (expo x) (- 1022) = e" using assms(4) by simp
  then show ?thesis using assms(1) by (simp add: round_double_def Let_def)
qed

lemma round_double_subnormal:
  assumes "x \<noteq> 0" "\<bar>x\<bar> < 2 powi (- 1022)"
  shows "round_double x = Finite (of_int (round_half_even (x / 2 powi (- 1074))) * 2 powi (- 1074))"
proof -
  have "expo x < - 1022"
  proof (rule ccontr)
    assume "\<not> expo x < - 1022"
    then have "(2::real) powi (- 1022) \<le> 2 powi (expo x)"
      by (intro power_int_increasing) auto
    with expo_bounds(1)[OF assms(1)] assms(2) show False by linarith
  qed
  then have e: "max (expo x) (- 1022) = - 1022" by simp
  let ?u = "(2::real) powi (- 1074)"
  let ?m = "round_half_even (x / ?u)"
  have "\<bar>x / ?u\<bar> \<le> 2 powi (- 1022) / ?u" using assms(2) by (simp add: divide_right_mono)
  also have "\<dots> = 2 ^ 52" by (simp add: power_int_minus field_simps)
  finally have "x / ?u \<le> of_int (2 ^ 52)" "of_int (- (2 ^ 52)) \<le> x / ?u" by simp_all
  then have "?m \<le> 2 ^ 52" "- (2 ^ 52) \<le> ?m"
    using round_half_even_le round_half_even_ge by blast+
  then have "real_of_int ?m \<le> 2 ^ 52" "- (2 ^ 52) \<le> real_of_int ?m"
    by (metis of_int_le_iff of_int_numeral of_int_power, metis of_int_le_iff of_int_minus of_int_numeral of_int_power)
  then have "real_of_int ?m * ?u \<le> 2 ^ 52 * ?u" "- (2 ^ 52) * ?u \<le> real_of_int ?m * ?u"
    by (simp_all add: mult_right_mono)
  moreover have "2 ^ 52 * ?u < huge" by (simp add: huge_def power_int_minus field_simps)
  ultimately have "real_of_int ?m * ?u < huge" "- huge < real_of_int ?m * ?u"
    by linarith+
  then show ?thesis using assms(1) e by (simp add: round_double_def Let_def)
qed


lemma round_double_zero [simp]: "round_double 0 = Finite 0"
  by (simp add: round_double_def)


lemma expo_less:
  assumes "x \<noteq> 0" "\<bar>x\<bar> < 2 powi e"
  shows "expo x < e"
proof (rule ccontr)
  assume "\<not> expo x < e"
  then have "(2::real) powi e \<le> 2 powi (expo x)"
    by (intro power_int_increasing) auto
  with expo_bounds(1)[OF assms(1)] assms(2) show False by linarith
qed

lemma round_double_general:
  assumes "x \<noteq> 0"
  shows "round_double x =
     (let e = max (expo x) (- 1022);
          r = of_int (round_half_even (x / 2 powi (e - 52))) * 2 powi (e - 52)
      in if r \<ge> huge then PosInf else if r \<le> - huge then NegInf else Finite r)"
  using assms by (simp add: round_double_def Let_def)

lemma round_double_exact:
  assumes x: "x = of_int m * 2 powi p"
    and m: "\<bar>m\<bar> < 2 ^ 53" and p: "- 1074 \<le> p" and fin: "\<bar>x\<bar> < huge"
  shows "round_double x = Finite x"
proof (cases "x = 0")
  case True
  then show ?thesis by simp
next
  case False
  define e where "e = max (expo x) (- 1022)"
  define k where "k = p - (e - 52)"
  define u where "u = (2::real) powi (e - 52)"
  have u: "u > 0" by (simp add: u_def)
  have "\<bar>x\<bar> = \<bar>of_int m\<bar> * 2 powi p" by (simp add: x abs_mult)
  also have "\<dots> < 2 ^ 53 * 2 powi p"
  proof -
    have "\<bar>real_of_int m\<bar> < 2 ^ 53"
      using m by (metis of_int_abs of_int_less_iff of_int_numeral of_int_power)
    then show ?thesis by (simp add: mult_strict_right_mono)
  qed
  also have "\<dots> = 2 powi (p + 53)" by (simp add: power_int_add)
  finally have "expo x < p + 53" using False by (intro expo_less) auto
  then have "e \<le> p + 52" using p by (simp add: e_def)
  then have k: "0 \<le> k" by (simp add: k_def)
  have pk: "2 powi p = u * 2 powi k"
    by (simp add: k_def u_def flip: power_int_add)
  have "2 powi k = (2::real) ^ nat k" using k by (simp add: power_int_def)
  then have q: "x / u = of_int (m * 2 ^ nat k)" using u by (simp add: x pk)
  have "round_half_even (x / u) = m * 2 ^ nat k"
    unfolding q by (rule round_half_even_int)
  then have "of_int (round_half_even (x / u)) * u = x / u * u" by (simp only: q)
  then have r: "of_int (round_half_even (x / u)) * u = x" using u by simp
  have "\<not> x \<ge> huge" "\<not> x \<le> - huge" using fin by auto
  then show ?thesis
    using False r by (simp add: round_double_general Let_def flip: e_def u_def)
qed

lemma round_double_of_int:
  assumes "\<bar>i\<bar> < 2 ^ 53"
  shows "round_double (of_int i) = Finite (of_int i)"
proof (rule round_double_exact[where m = i and p = 0])
  show "real_of_int i = of_int i * 2 powi 0" by simp
  show "\<bar>i\<bar> < 2 ^ 53" by (rule assms)
  show "- 1074 \<le> (0::int)" by simp
  have "\<bar>real_of_int i\<bar> < 2 ^ 53"
    using assms by (metis of_int_abs of_int_less_iff of_int_numeral of_int_power)
  moreover have "(2::real) ^ 53 < huge" by (simp add: huge_def)
  ultimately show "\<bar>real_of_int i\<bar> < huge" by linarith
qed


lemma round_double_eval:
  assumes "x \<noteq> 0" "2 powi e \<le> \<bar>x\<bar>" "\<bar>x\<bar> < 2 powi (e + 1)" "- 1022 \<le> e"
    and "round_half_even (x / 2 powi (e - 52)) = n"
    and "\<bar>of_int n * 2 powi (e - 52)\<bar> < huge"
  shows "round_double x = Finite (of_int n * 2 powi (e - 52))"
proof -
  have "\<not> of_int n * 2 powi (e - 52) \<ge> huge" "\<not> of_int n * 2 powi (e - 52) \<le> - huge"
    using assms(6) by (auto simp: abs_less_iff)
  then show ?thesis
    using round_double_at[OF assms(1-4)] assms(5) by (simp add: Let_def)
qed

lemma huge_pos: "0 < huge" "1 < huge"
  by (simp_all add: huge_def)

lemma round_double_unit:
  assumes "0 \<le> x" "x \<le> 1"
  shows "\<exists>r. round_double x = Finite r \<and> 0 \<le> r \<and> r \<le> 1 \<and>
           \<bar>r - x\<bar> \<le> x / 2 ^ 53 + 2 powi (- 1075)"
proof (cases "x = 0")
  case True
  then show ?thesis by simp
next
  case False
  then have pos: "0 < x" using assms(1) by simp
  define e where "e = max (expo x) (- 1022)"
  define u where "u = (2::real) powi (e - 52)"
  define n where "n = round_half_even (x / u)"
  have u: "0 < u" by (simp add: u_def)
  have "\<bar>x\<bar> < 2 powi 1" using assms by simp
  then have "expo x < 1" using False by (rule expo_less[rotated])
  then have e0: "e \<le> 0" by (simp add: e_def)
  have n0: "0 \<le> n"
    unfolding n_def using pos u by (intro round_half_even_ge) simp
  have inv: "1 / u = of_int (2 ^ nat (52 - e))"
  proof -
    have "1 / u = 2 powi (52 - e)" by (simp add: u_def power_int_diff)
    also have "\<dots> = 2 ^ nat (52 - e)" using e0 by (simp add: power_int_def)
    finally show ?thesis by simp
  qed
  have "x / u \<le> 1 / u" using assms(2) u by (simp add: divide_right_mono)
  then have "n \<le> 2 ^ nat (52 - e)"
    unfolding n_def inv by (rule round_half_even_le)
  then have "of_int n \<le> 1 / u" unfolding inv by (simp only: of_int_le_iff)
  then have r1: "of_int n * u \<le> 1" using u by (simp add: field_simps)
  have r0: "0 \<le> of_int n * u" using n0 u by simp
  have "\<bar>of_int n - x / u\<bar> \<le> 1 / 2" unfolding n_def by (rule round_half_even_error)
  then have "\<bar>of_int n - x / u\<bar> * u \<le> 1 / 2 * u" using u by (intro mult_right_mono) simp_all
  moreover have "\<bar>of_int n - x / u\<bar> * u = \<bar>of_int n * u - x\<bar>"
  proof -
    have "\<bar>of_int n - x / u\<bar> * u = \<bar>(of_int n - x / u) * u\<bar>" using u by (simp add: abs_mult)
    also have "(of_int n - x / u) * u = of_int n * u - x" using u by (simp add: field_simps)
    finally show ?thesis .
  qed
  ultimately have err: "\<bar>of_int n * u - x\<bar> \<le> u / 2" by simp
  have ub: "u / 2 \<le> x / 2 ^ 53 + 2 powi (- 1075)"
  proof (cases "- 1022 \<le> expo x")
    case True
    then have "e = expo x" by (simp add: e_def)
    then have "2 powi e \<le> x" using expo_bounds(1)[OF False] pos by simp
    moreover have "u / 2 = 2 powi e / 2 ^ 53"
    proof -
      have "(2::real) powi (e - 52 + 52) = 2 powi (e - 52) * 2 powi 52"
        by (rule power_int_add) simp
      then show ?thesis by (simp add: u_def)
    qed
    ultimately have "u / 2 \<le> x / 2 ^ 53" by (simp add: divide_right_mono)
    moreover have "0 \<le> (2::real) powi (- 1075)" by simp
    ultimately show ?thesis by linarith
  next
    case False
    then have "e = - 1022" by (simp add: e_def)
    then have "u / 2 = 2 powi (- 1075)"
    proof -
      assume "e = - 1022"
      have "(2::real) powi (- 1075 + 1) = 2 powi (- 1075) * 2 powi 1"
        by (rule power_int_add) simp
      then show ?thesis using \<open>e = - 1022\<close> by (simp add: u_def)
    qed
    moreover have "0 \<le> x / 2 ^ 53" using assms(1) by simp
    ultimately show ?thesis by linarith
  qed
  have "\<not> of_int n * u \<ge> huge" "\<not> of_int n * u \<le> - huge"
    using r0 r1 huge_pos by linarith+
  then have "round_double x = Finite (of_int n * u)"
    using False by (simp add: round_double_general Let_def flip: e_def u_def n_def)
  with r0 r1 err ub show ?thesis by force
qed


lemma float_of_int_finite: "float_of_int i = Inr x \<Longrightarrow> \<exists>r. x = Finite r"
  by (cases "round_double (of_int i)") (auto simp: float_of_int_def)



lemma fadd_int:
  "\<bar>a + b\<bar> < 2 ^ 53 \<Longrightarrow> fadd (Finite (of_int a)) (Finite (of_int b)) = Finite (of_int (a + b))"
  using round_double_of_int[of "a + b"] by simp

lemma fmul_int:
  "\<bar>a * b\<bar> < 2 ^ 53 \<Longrightarrow> fmul (Finite (of_int a)) (Finite (of_int b)) = Finite (of_int (a * b))"
  using round_double_of_int[of "a * b"] by simp

subsection \<open>\<^verbatim>\<open>assess_stage\<close> on doubles returns or raises \<^verbatim>\<open>OverflowError\<close>\<close>












section \<open>The claims\<close>


subsection \<open>C1: raw scores and probabilities\<close>






subsection \<open>C2: the confidence label\<close>



subsection \<open>C10: only the declared questions count\<close>

lemma accumulate_cong:
  "(\<And>q. q \<in> set qs \<Longrightarrow> signal_get sigs (qid q) = signal_get sigs' (qid q)) \<Longrightarrow>
   accumulate qs sigs sts scores = accumulate qs sigs' sts scores"
proof (induction qs arbitrary: scores)
  case Nil
  then show ?case by simp
next
  case (Cons q qs)
  have "signal_get sigs (qid q) = signal_get sigs' (qid q)" using Cons.prems by simp
  moreover have "\<And>sc. accumulate qs sigs sts sc = accumulate qs sigs' sts sc"
    using Cons.IH Cons.prems by simp
  ultimately show ?case by (simp split: option.splits sum.splits)
qed

lemma coverage_of_cong:
  "(\<And>q. q \<in> set (questions cfg) \<Longrightarrow> signal_get sigs (qid q) = signal_get sigs' (qid q)) \<Longrightarrow>
   coverage_of cfg sigs = coverage_of cfg sigs'"
proof -
  assume a: "\<And>q. q \<in> set (questions cfg) \<Longrightarrow> signal_get sigs (qid q) = signal_get sigs' (qid q)"
  have "filter (\<lambda>q. signal_get sigs (qid q) \<noteq> None) (questions cfg) =
        filter (\<lambda>q. signal_get sigs' (qid q) \<noteq> None) (questions cfg)"
    by (rule filter_cong) (simp_all add: a)
  then show ?thesis by (simp add: coverage_of_def)
qed

text \<open>
  C10. Two signal maps that give the same answer to \<^verbatim>\<open>signals.get(qid, None)\<close> at every
  declared question give the same result of \<^const>\<open>assess_stage\<close>: the same probabilities,
  label, scores and coverage. Maps that agree on the declared question-ids are such maps,
  whatever they hold under other keys.
\<close>

theorem assess_stage_declared_only:
  "\<forall>q \<in> set (questions cfg). signal_get sigs (qid q) = signal_get sigs' (qid q) \<Longrightarrow>
   assess_stage cfg sigs = assess_stage cfg sigs'"
proof -
  assume a: "\<forall>q \<in> set (questions cfg). signal_get sigs (qid q) = signal_get sigs' (qid q)"
  have acc: "\<And>sc. accumulate (questions cfg) sigs (stages cfg) sc =
      accumulate (questions cfg) sigs' (stages cfg) sc"
    by (rule accumulate_cong) (simp add: a)
  have cov: "coverage_of cfg sigs = coverage_of cfg sigs'"
    by (rule coverage_of_cong) (simp add: a)
  show ?thesis unfolding assess_stage_def acc cov by (rule refl)
qed

text \<open>An entry under the undeclared id \<^verbatim>\<open>Q0\<close> changes nothing.\<close>

theorem assess_stage_declared_only_witness:
  "list_all (\<lambda>q. signal_get signals2 (qid q) = signal_get (signals2(''Q0'' \<mapsto> Some 2)) (qid q))
     (questions cfg2) \<and>
   assess_stage cfg2 signals2 = assess_stage cfg2 (signals2(''Q0'' \<mapsto> Some 2))"
proof -
  have h: "\<forall>q \<in> set (questions cfg2).
      signal_get signals2 (qid q) = signal_get (signals2(''Q0'' \<mapsto> Some 2)) (qid q)"
    by (simp add: cfg2_def signals2_def signal_get_def)
  from assess_stage_declared_only[OF h] h show ?thesis by (simp add: list_all_iff)
qed

subsection \<open>C6: the probabilities sum to 0 or 1\<close>








subsection \<open>C8: coverage\<close>

lemma answered_le: "answered cfg sigs \<le> length (questions cfg)"
  by (simp add: answered_def)

lemma answered_zero:
  "\<forall>q \<in> set (questions cfg). signal_get sigs (qid q) = None \<Longrightarrow> answered cfg sigs = 0"
  by (simp add: answered_def)

lemma answered_all:
  "\<forall>q \<in> set (questions cfg). signal_get sigs (qid q) \<noteq> None \<Longrightarrow>
   answered cfg sigs = length (questions cfg)"
  by (simp add: answered_def)

lemma filter_length_mono:
  "(\<And>x. x \<in> set xs \<Longrightarrow> P x \<Longrightarrow> Q x) \<Longrightarrow> length (filter P xs) \<le> length (filter Q xs)"
  by (induction xs) auto

lemma answered_mono:
  "\<forall>q \<in> set (questions cfg). signal_get sigs (qid q) \<noteq> None \<longrightarrow> signal_get sigs' (qid q) \<noteq> None \<Longrightarrow>
   answered cfg sigs \<le> answered cfg sigs'"
  unfolding answered_def by (rule filter_length_mono) blast

lemma coverage_of_answered:
  "questions cfg \<noteq> [] \<Longrightarrow>
   coverage_of cfg sigs = real (answered cfg sigs) / real (length (questions cfg))"
proof -
  assume "questions cfg \<noteq> []"
  then have "max (length (questions cfg)) 1 = length (questions cfg)"
    by (cases "questions cfg") auto
  then show ?thesis by (simp add: coverage_of_def answered_def)
qed

lemma assess_stage_returns_coverage:
  "\<exists>probs conf scores. assess_stage cfg sigs = Inr (probs, conf, scores, coverage_of cfg sigs)"
  using assess_stage_total[of cfg sigs] by blast

text \<open>
  C8. For every configuration with at least one question and every signal map, the coverage
  returned by \<^const>\<open>assess_stage\<close> is the number of declared questions with a signal that
  is not null divided by the number of questions; it lies in [0, 1], is 0 when every
  declared question has a null signal and 1 when none has, and does not decrease when the
  signal map is replaced by one that answers at least the same declared questions.
\<close>

theorem assess_stage_coverage:
  assumes ne: "questions cfg \<noteq> []"
  shows "\<exists>probs conf scores cov.
     assess_stage cfg sigs = Inr (probs, conf, scores, cov) \<and>
     cov = real (answered cfg sigs) / real (length (questions cfg)) \<and>
     0 \<le> cov \<and> cov \<le> 1 \<and>
     ((\<forall>q \<in> set (questions cfg). signal_get sigs (qid q) = None) \<longrightarrow> cov = 0) \<and>
     ((\<forall>q \<in> set (questions cfg). signal_get sigs (qid q) \<noteq> None) \<longrightarrow> cov = 1) \<and>
     (\<forall>sigs'.
        (\<forall>q \<in> set (questions cfg).
           signal_get sigs (qid q) \<noteq> None \<longrightarrow> signal_get sigs' (qid q) \<noteq> None) \<longrightarrow>
        (\<exists>probs' conf' scores' cov'.
           assess_stage cfg sigs' = Inr (probs', conf', scores', cov') \<and> cov \<le> cov'))"
proof -
  let ?n = "length (questions cfg)"
  let ?cov = "coverage_of cfg sigs"
  have n: "0 < ?n" using ne by simp
  obtain probs conf scores where r: "assess_stage cfg sigs = Inr (probs, conf, scores, ?cov)"
    using assess_stage_returns_coverage by blast
  have eq: "?cov = real (answered cfg sigs) / real ?n" by (rule coverage_of_answered[OF ne])
  have lo: "0 \<le> ?cov" unfolding eq by simp
  have hi: "?cov \<le> 1" unfolding eq using answered_le[of cfg sigs] n by simp
  have zero: "(\<forall>q \<in> set (questions cfg). signal_get sigs (qid q) = None) \<longrightarrow> ?cov = 0"
    unfolding eq using answered_zero[of cfg sigs] by simp
  have one: "(\<forall>q \<in> set (questions cfg). signal_get sigs (qid q) \<noteq> None) \<longrightarrow> ?cov = 1"
    unfolding eq using answered_all[of cfg sigs] n by simp
  have mono: "\<forall>sigs'.
        (\<forall>q \<in> set (questions cfg).
           signal_get sigs (qid q) \<noteq> None \<longrightarrow> signal_get sigs' (qid q) \<noteq> None) \<longrightarrow>
        (\<exists>probs' conf' scores' cov'.
           assess_stage cfg sigs' = Inr (probs', conf', scores', cov') \<and> ?cov \<le> cov')"
  proof (intro allI impI)
    fix sigs'
    assume a: "\<forall>q \<in> set (questions cfg).
           signal_get sigs (qid q) \<noteq> None \<longrightarrow> signal_get sigs' (qid q) \<noteq> None"
    obtain probs' conf' scores' where
      r': "assess_stage cfg sigs' = Inr (probs', conf', scores', coverage_of cfg sigs')"
      using assess_stage_returns_coverage by blast
    have "real (answered cfg sigs) \<le> real (answered cfg sigs')"
      using answered_mono[OF a] by simp
    then have "?cov \<le> coverage_of cfg sigs'"
      unfolding coverage_of_answered[OF ne] using n by (simp add: divide_right_mono)
    with r' show "\<exists>probs' conf' scores' cov'.
           assess_stage cfg sigs' = Inr (probs', conf', scores', cov') \<and> ?cov \<le> cov'" by blast
  qed
  from r eq lo hi zero one mono show ?thesis by blast
qed

text \<open>Three questions: two answered give 2/3, all answered give 1, none answered gives 0.\<close>

theorem assess_stage_coverage_witness:
  "questions cfg2 \<noteq> [] \<and>
   (\<exists>probs conf scores. assess_stage cfg2 signals2 = Inr (probs, conf, scores, 2 / 3)) \<and>
   (\<exists>probs conf scores. assess_stage cfg2 (signals2(''Q3'' \<mapsto> Some 0)) = Inr (probs, conf, scores, 1)) \<and>
   (\<exists>probs conf scores. assess_stage cfg2 Map.empty = Inr (probs, conf, scores, 0))"
proof -
  have ne: "questions cfg2 \<noteq> []" by (simp add: cfg2_def)
  have a: "answered cfg2 signals2 = 2" "answered cfg2 (signals2(''Q3'' \<mapsto> Some 0)) = 3"
    "answered cfg2 Map.empty = 0" "length (questions cfg2) = 3"
    by (simp_all add: answered_def cfg2_def signals2_def signal_get_def)
  show ?thesis
    using ne assess_stage_coverage[OF ne, of signals2]
      assess_stage_coverage[OF ne, of "signals2(''Q3'' \<mapsto> Some 0)"]
      assess_stage_coverage[OF ne, of Map.empty]
    unfolding a by auto
qed

subsection \<open>C3: \<^verbatim>\<open>normalize_signals\<close>\<close>

lemma normalize_step:
  "(case incoming_get incoming k of
      None \<Rightarrow> None
    | Some v \<Rightarrow> (case py_int L v of Inl e \<Rightarrow> None
                  | Inr iv \<Rightarrow> if iv \<in> allowed_values cfg then Some iv else None)) =
   normalized_value L cfg (incoming k)"
  by (simp add: incoming_get_def normalized_value_def split: option.splits json.splits)

lemma normalize_loop_apply:
  "normalize_loop L (allowed_values cfg) qs incoming out k =
     (if k \<in> qid ` set qs then Some (normalized_value L cfg (incoming k)) else out k)"
proof (induction qs arbitrary: out)
  case Nil
  then show ?case by simp
next
  case (Cons q qs)
  let ?x = "normalized_value L cfg (incoming (qid q))"
  have x: "?x = (case incoming_get incoming (qid q) of
      None \<Rightarrow> None
    | Some v \<Rightarrow> (case py_int L v of Inl e \<Rightarrow> None
                  | Inr iv \<Rightarrow> if iv \<in> allowed_values cfg then Some iv else None))"
    by (rule normalize_step[symmetric])
  have step: "normalize_loop L (allowed_values cfg) (q # qs) incoming out =
      normalize_loop L (allowed_values cfg) qs incoming (out(qid q \<mapsto> ?x))"
  proof (cases "incoming_get incoming (qid q)")
    case None
    then show ?thesis by (simp add: x)
  next
    case (Some v)
    then show ?thesis by (cases "py_int L v") (simp_all add: x)
  qed
  show ?case unfolding step Cons.IH[of "out(qid q \<mapsto> ?x)"] by auto
qed

lemma normalize_signals_apply:
  "normalize_signals L cfg incoming k =
     (if k \<in> qid ` set (questions cfg) then Some (normalized_value L cfg (incoming k)) else None)"
  by (simp add: normalize_signals_def normalize_loop_apply)

lemma normalized_value_Some:
  "normalized_value L cfg v = Some i \<longleftrightarrow>
     (\<exists>x. v = Some x \<and> py_int L x = Inr i \<and> i \<in> allowed_values cfg)"
  by (auto simp: normalized_value_def split: option.splits json.splits sum.splits if_splits)

text \<open>
  C3, amended. For every library, configuration and incoming map of JSON values,
  \<^const>\<open>normalize_signals\<close> returns a map whose keys are exactly the declared question-ids,
  and the entry of a question is the integer \<open>i\<close> exactly when the question is present in
  the incoming map with a value on which \<^verbatim>\<open>int\<close> returns \<open>i\<close> (an integer as it is, a
  boolean as 0 or 1, a float cut towards zero, a string as parsed) and \<open>i\<close> is in the
  answer scale; every other entry is null. The function has no failing branch: a raise of
  \<^verbatim>\<open>int\<close> is caught and gives null.
\<close>

theorem normalize_signals_entries:
  "dom (normalize_signals L cfg incoming) = qid ` set (questions cfg) \<and>
   (\<forall>k i. normalize_signals L cfg incoming k = Some (Some i) \<longleftrightarrow>
      k \<in> qid ` set (questions cfg) \<and>
      (\<exists>v. incoming k = Some v \<and> py_int L v = Inr i \<and> i \<in> allowed_values cfg))"
proof -
  have "dom (normalize_signals L cfg incoming) = qid ` set (questions cfg)"
    by (auto simp: normalize_signals_apply dom_def)
  moreover have "\<forall>k i. normalize_signals L cfg incoming k = Some (Some i) \<longleftrightarrow>
      k \<in> qid ` set (questions cfg) \<and>
      (\<exists>v. incoming k = Some v \<and> py_int L v = Inr i \<and> i \<in> allowed_values cfg)"
    by (simp add: normalize_signals_apply normalized_value_Some)
  ultimately show ?thesis by blast
qed

lemma float_to_int_three_halves: "float_to_int (3 / 2) = 1"
  by (simp add: float_to_int_def)

text \<open>The float 1.5 is kept as 1, the integer 7 is out of scale, the key \<^verbatim>\<open>Q9\<close> is not
  declared.\<close>

theorem normalize_signals_entries_witness:
  "dom (normalize_signals lib0 cfg2 incoming_raw) = {''Q1'', ''Q2'', ''Q3''} \<and>
   normalize_signals lib0 cfg2 incoming_raw ''Q1'' = Some (Some 1) \<and>
   normalize_signals lib0 cfg2 incoming_raw ''Q2'' = Some None \<and>
   normalize_signals lib0 cfg2 incoming_raw ''Q3'' = Some (Some 2) \<and>
   normalize_signals lib0 cfg2 incoming_raw ''Q9'' = None"
proof -
  have q: "qid ` set (questions cfg2) = {''Q1'', ''Q2'', ''Q3''}"
    by (auto simp: cfg2_def)
  have v: "normalize_signals lib0 cfg2 incoming_raw ''Q1'' = Some (Some 1)"
    "normalize_signals lib0 cfg2 incoming_raw ''Q2'' = Some None"
    "normalize_signals lib0 cfg2 incoming_raw ''Q3'' = Some (Some 2)"
    "normalize_signals lib0 cfg2 incoming_raw ''Q9'' = None"
    by (simp_all add: normalize_signals_def cfg2_def lib0_def incoming_raw_def incoming_get_def allowed_values_def
        float_to_int_three_halves)
  from normalize_signals_entries[of lib0 cfg2 incoming_raw] q v show ?thesis by simp
qed

text \<open>
  C3 as stated keeps a value only if it converts to an integer without loss. The code
  converts with \<^verbatim>\<open>int(v)\<close>, which cuts a float: the incoming value 1.5 is kept as 1.
\<close>

theorem normalize_signals_lossy_counterexample:
  "normalize_signals lib0 cfg2 incoming_float ''Q1'' = Some (Some 1) \<and>
   incoming_float ''Q1'' = Some (JFloat (Finite (3 / 2))) \<and>
   \<not> converts_losslessly lib0 (JFloat (Finite (3 / 2))) 1"
  by (simp add: normalize_signals_def cfg2_def lib0_def incoming_float_def incoming_get_def allowed_values_def
      float_to_int_three_halves)

subsection \<open>C9: the stored signals stay in the answer scale\<close>

lemma merge_loop_apply:
  "merge_loop L (allowed_values cfg) qs incoming sigs k =
     (if k \<in> qid ` set qs
      then (case normalized_value L cfg (incoming k) of Some i \<Rightarrow> Some (Some i) | None \<Rightarrow> sigs k)
      else sigs k)"
proof (induction qs arbitrary: sigs)
  case Nil
  then show ?case by simp
next
  case (Cons q qs)
  let ?x = "normalized_value L cfg (incoming (qid q))"
  let ?sigs = "case ?x of Some i \<Rightarrow> sigs(qid q \<mapsto> Some i) | None \<Rightarrow> sigs"
  have x: "?x = (case incoming_get incoming (qid q) of
      None \<Rightarrow> None
    | Some v \<Rightarrow> (case py_int L v of Inl e \<Rightarrow> None
                  | Inr iv \<Rightarrow> if iv \<in> allowed_values cfg then Some iv else None))"
    by (rule normalize_step[symmetric])
  have step: "merge_loop L (allowed_values cfg) (q # qs) incoming sigs =
      merge_loop L (allowed_values cfg) qs incoming ?sigs"
  proof (cases "incoming_get incoming (qid q)")
    case None
    then show ?thesis by (simp add: x)
  next
    case (Some v)
    then show ?thesis by (cases "py_int L v") (simp_all add: x)
  qed
  show ?case unfolding step Cons.IH[of ?sigs] by (auto split: option.splits)
qed

lemma update_user_state_returns:
  "\<exists>snap. update_user_state L now cfg ust incoming =
     Inr \<lparr>signals = merge_loop L (allowed_values cfg) (questions cfg) incoming
                       (signals (state_or_empty ust)),
          history = history (state_or_empty ust) @ [snap]\<rparr>"
proof -
  let ?sigs = "merge_loop L (allowed_values cfg) (questions cfg) incoming
      (signals (state_or_empty ust))"
  obtain probs conf scores where
    "assess_stage cfg ?sigs = Inr (probs, conf, scores, coverage_of cfg ?sigs)"
    using assess_stage_returns_coverage by blast
  then show ?thesis by (simp add: update_user_state_def Let_def)
qed

lemma merge_loop_in_scale:
  assumes "signals_in_scale cfg sigs"
  shows "signals_in_scale cfg (merge_loop L (allowed_values cfg) qs incoming sigs)"
  unfolding signals_in_scale_def
proof (intro allI impI)
  fix k v
  assume a: "merge_loop L (allowed_values cfg) qs incoming sigs k = Some v"
  show "\<exists>i. v = Some i \<and> i \<in> allowed_values cfg"
  proof (cases "k \<in> qid ` set qs \<and> normalized_value L cfg (incoming k) \<noteq> None")
    case True
    then obtain i where i: "normalized_value L cfg (incoming k) = Some i" by blast
    then have "i \<in> allowed_values cfg" unfolding normalized_value_Some by blast
    moreover have "v = Some i" using a True i by (simp add: merge_loop_apply)
    ultimately show ?thesis by blast
  next
    case False
    then have "merge_loop L (allowed_values cfg) qs incoming sigs k = sigs k"
      by (auto simp: merge_loop_apply split: option.splits)
    with a assms show ?thesis by (simp add: signals_in_scale_def)
  qed
qed

text \<open>
  C9. For every library, configuration, time stamp, stored state (absent or not) whose
  signal values are all integers of the answer scale, and every incoming map of JSON
  values, \<^const>\<open>update_user_state\<close> returns a state whose signal values are all integers
  of the answer scale: it drops by itself every incoming value on which \<^verbatim>\<open>int\<close> raises or
  whose integer is out of scale.
\<close>

theorem update_user_state_in_scale:
  "signals_in_scale cfg (signals (state_or_empty ust)) \<Longrightarrow>
   \<exists>st'. update_user_state L now cfg ust incoming = Inr st' \<and>
         signals_in_scale cfg (signals st')"
proof -
  assume a: "signals_in_scale cfg (signals (state_or_empty ust))"
  from update_user_state_returns[of L now cfg ust incoming] obtain snap where
    "update_user_state L now cfg ust incoming =
     Inr \<lparr>signals = merge_loop L (allowed_values cfg) (questions cfg) incoming
                       (signals (state_or_empty ust)),
          history = history (state_or_empty ust) @ [snap]\<rparr>" by blast
  moreover have "signals_in_scale cfg (merge_loop L (allowed_values cfg) (questions cfg) incoming
                       (signals (state_or_empty ust)))"
    using a by (rule merge_loop_in_scale)
  ultimately show ?thesis by simp
qed

text \<open>An incoming map that was not normalized: the float is stored as 1, the value 7 is
  dropped and the stored -2 stays, the undeclared key is not stored.\<close>

theorem update_user_state_in_scale_witness:
  "signals_in_scale cfg2 (signals (state_or_empty (Some state1))) \<and>
   (\<exists>st'. update_user_state lib0 ''t1'' cfg2 (Some state1) incoming_raw = Inr st' \<and>
      signals_in_scale cfg2 (signals st') \<and>
      signals st' ''Q1'' = Some (Some 1) \<and> signals st' ''Q2'' = Some (Some (- 2)) \<and>
      signals st' ''Q3'' = Some (Some 2) \<and> signals st' ''Q9'' = None)"
proof -
  have h: "signals_in_scale cfg2 (signals (state_or_empty (Some state1)))"
    by (auto simp: signals_in_scale_def state_or_empty_def state1_def allowed_values_def cfg2_def
        split: if_splits)
  from update_user_state_in_scale[OF h, of lib0 "''t1''" incoming_raw] obtain st' where
    st: "update_user_state lib0 ''t1'' cfg2 (Some state1) incoming_raw = Inr st'"
      "signals_in_scale cfg2 (signals st')" by blast
  from update_user_state_returns[of lib0 "''t1''" cfg2 "Some state1" incoming_raw] st(1)
  have sig: "signals st' = merge_loop lib0 (allowed_values cfg2) (questions cfg2) incoming_raw
      (signals (state_or_empty (Some state1)))" by auto
  have "signals st' ''Q1'' = Some (Some 1)" "signals st' ''Q2'' = Some (Some (- 2))"
    "signals st' ''Q3'' = Some (Some 2)" "signals st' ''Q9'' = None"
    unfolding sig
    by (simp_all add: cfg2_def lib0_def incoming_raw_def state1_def state_or_empty_def incoming_get_def allowed_values_def
        float_to_int_three_halves)
  with h st show ?thesis by blast
qed

subsection \<open>C4: last write wins, one snapshot a turn\<close>











lemma normalize_signals_normalized: "normalized cfg (normalize_signals L cfg incoming)"
  unfolding normalized_def
proof (intro allI impI)
  fix k i
  assume a: "normalize_signals L cfg incoming k = Some (Some i)"
  then have k: "k \<in> qid ` set (questions cfg)"
    by (simp add: normalize_signals_apply split: if_splits)
  with a have "normalized_value L cfg (incoming k) = Some i"
    by (simp add: normalize_signals_apply)
  then have "i \<in> allowed_values cfg" unfolding normalized_value_Some by blast
  with k show "k \<in> qid ` set (questions cfg) \<and> i \<in> allowed_values cfg" by simp
qed








subsection \<open>C5: \<^verbatim>\<open>load_assessment_config\<close>\<close>









subsection \<open>C7: the fingerprint\<close>













end
